theory Spec2Isabelle
  imports Main "HOL-Library.Word"
begin

section \<open>Blob bindings of rugged (\<^verbatim>\<open>ext/rugged/rugged_blob.c\<close>)\<close>

subsection \<open>Bytes and buffers\<close>

text \<open>
  A blob's raw content (\<^verbatim>\<open>git_blob_rawcontent\<close>, \<^verbatim>\<open>git_blob_rawsize\<close>) is a finite
  sequence of bytes; the model reads it as a list, a pointer into it as an index and
  its size as the list's length. Sizes and counters of type \<^verbatim>\<open>size_t\<close> never exceed
  the buffer's length in this file and are natural numbers.
\<close>

type_synonym byte = "8 word"

abbreviation NL :: byte where "NL \<equiv> 10"

text \<open>
  \<^verbatim>\<open>isspace\<close> of \<^verbatim>\<open><ctype.h>\<close> in the C locale: space, and the controls
  \<^verbatim>\<open>\t \n \v \f \r\<close> (9 to 13); no byte above 127 is whitespace there. It belongs to
  the C library, not to this file.
\<close>

definition isspace :: "byte \<Rightarrow> bool" where
  "isspace c = (c = 32 \<or> c = 9 \<or> c = 10 \<or> c = 11 \<or> c = 12 \<or> c = 13)"

subsection \<open>\<^verbatim>\<open>rb_git_blob_sloc\<close>\<close>

text \<open>
  The inner loop \<^verbatim>\<open>while (data < data_end && isspace(*data)) data++;\<close>: the
  pointer \<^verbatim>\<open>data\<close> is the index \<open>i\<close>, \<^verbatim>\<open>data_end\<close> is \<open>length buf\<close>.
\<close>

function skip_space :: "byte list \<Rightarrow> nat \<Rightarrow> nat" where
  "skip_space buf i =
     (if i < length buf \<and> isspace (buf ! i) then skip_space buf (i + 1) else i)"
  by pat_completeness auto
termination
  by (relation "measure (\<lambda>(buf, i). length buf - i)") auto

declare skip_space.simps [simp del]

text \<open>
  The outer loop
  \<^verbatim>\<open>while (data < data_end) { if (*data++ == '\n') { <skip>; sloc++; } }\<close>,
  returning the final pointer and the counter.
\<close>

function sloc_loop :: "byte list \<Rightarrow> nat \<Rightarrow> nat \<Rightarrow> nat \<times> nat" where
  "sloc_loop buf i sloc =
     (if i < length buf then
        (if buf ! i = NL then sloc_loop buf (skip_space buf (i + 1)) (sloc + 1)
         else sloc_loop buf (i + 1) sloc)
      else (i, sloc))"
  by pat_completeness auto
termination
proof (relation "measure (\<lambda>(buf, i, sloc). length buf - i)")
  show "wf (measure (\<lambda>(buf, i, sloc). length buf - i))"
    by simp
next
  fix buf :: "byte list" and i sloc :: nat
  assume less: "i < length buf" and "buf ! i = NL"
  have mono: "j \<le> skip_space buf j" for j
    by (induction buf j rule: skip_space.induct) (subst skip_space.simps, auto)
  have bound: "j \<le> length buf \<Longrightarrow> skip_space buf j \<le> length buf" for j
    by (induction buf j rule: skip_space.induct) (subst skip_space.simps, auto)
  from mono [of "i + 1"] bound [of "i + 1"] less
  show "((buf, skip_space buf (i + 1), sloc + 1), (buf, i, sloc))
          \<in> measure (\<lambda>(buf, i, sloc). length buf - i)"
    by simp
next
  fix buf :: "byte list" and i sloc :: nat
  assume "i < length buf" and "buf ! i \<noteq> NL"
  then show "((buf, i + 1, sloc), (buf, i, sloc))
          \<in> measure (\<lambda>(buf, i, sloc). length buf - i)"
    by simp
qed

declare sloc_loop.simps [simp del]

text \<open>
  The whole function. The empty blob returns 0 before the loop. After the loop,
  \<^verbatim>\<open>data[-1]\<close> is the byte just before the final pointer. The counter is boxed by
  \<^verbatim>\<open>INT2FIX\<close>; the model returns the number it holds.
\<close>

definition rb_git_blob_sloc :: "byte list \<Rightarrow> nat" where
  "rb_git_blob_sloc buf =
     (if length buf = 0 then 0
      else (case sloc_loop buf 0 0 of
              (i, sloc) \<Rightarrow> if buf ! (i - 1) \<noteq> NL then sloc + 1 else sloc))"

subsection \<open>Ruby values and the C API the bindings call\<close>

text \<open>
  A Ruby \<^verbatim>\<open>VALUE\<close> as far as this file looks at it: \<^verbatim>\<open>nil\<close>, the booleans, a
  Fixnum, a String (its bytes and its encoding tag), a repository handle, and any other
  object. The functions below take their arguments as \<^verbatim>\<open>rb_scan_args\<close> delivers
  them: an optional argument that was not passed is \<open>Qnil\<close>.
\<close>

datatype rb_encoding = ASCII_8BIT | Encoding nat

datatype rb_value =
    Qnil
  | Qtrue
  | Qfalse
  | Fixnum int
  | RString "byte list" rb_encoding
  | RRepository
  | RObject nat

datatype rb_type = T_NIL | T_TRUE | T_FALSE | T_FIXNUM | T_STRING | T_DATA | T_OBJECT

datatype rb_error = TypeError | RangeError | ArgumentError | GitError

text \<open>
  The macros and functions of Ruby's C API (\<^verbatim>\<open>ruby.h\<close>) used here. \<^verbatim>\<open>Check_Type\<close>
  raises \<^verbatim>\<open>TypeError\<close> on a value of another type. \<^verbatim>\<open>FIX2INT\<close> converts a Fixnum
  to a C \<^verbatim>\<open>int\<close> (32 bits) and raises \<^verbatim>\<open>RangeError\<close> when the value does not fit.
  A raise is the left summand of the result. The macro \<^verbatim>\<open>TYPE\<close> is \<open>TYPE_of\<close> here.
\<close>

fun TYPE_of :: "rb_value \<Rightarrow> rb_type" where
  "TYPE_of Qnil = T_NIL"
| "TYPE_of Qtrue = T_TRUE"
| "TYPE_of Qfalse = T_FALSE"
| "TYPE_of (Fixnum n) = T_FIXNUM"
| "TYPE_of (RString s enc) = T_STRING"
| "TYPE_of RRepository = T_DATA"
| "TYPE_of (RObject k) = T_OBJECT"

definition NIL_P :: "rb_value \<Rightarrow> bool" where
  "NIL_P v = (v = Qnil)"

definition Check_Type :: "rb_value \<Rightarrow> rb_type \<Rightarrow> rb_error + unit" where
  "Check_Type v t = (if TYPE_of v = t then Inr () else Inl TypeError)"

fun FIX2INT :: "rb_value \<Rightarrow> rb_error + 32 word" where
  "FIX2INT (Fixnum n) =
     (if - (2 ^ 31) \<le> n \<and> n < 2 ^ 31 then Inr (word_of_int n) else Inl RangeError)"
| "FIX2INT v = Inl TypeError"

definition INT2FIX :: "nat \<Rightarrow> rb_value" where
  "INT2FIX n = Fixnum (int n)"

text \<open>Sequencing of calls that may raise: the first raise is the result.\<close>

fun and_then :: "rb_error + 'a \<Rightarrow> ('a \<Rightarrow> rb_error + 'b) \<Rightarrow> rb_error + 'b" where
  "and_then (Inl e) f = Inl e"
| "and_then (Inr x) f = f x"

text \<open>
  Modelled from the spec: \<^verbatim>\<open>rugged_str_new\<close> and \<^verbatim>\<open>rugged_str_ascii\<close> are macros of
  \<^verbatim>\<open>rugged.h\<close>, outside \<^verbatim>\<open>rugged_blob.c\<close>. The result of an extraction is the
  byte range \<open>[0, cut)\<close> of the buffer; a text value carries the encoding tag it is given,
  raw bytes carry the binary tag.
\<close>

definition rugged_str_new :: "byte list \<Rightarrow> nat \<Rightarrow> rb_encoding \<Rightarrow> rb_value" where
  "rugged_str_new str len enc = RString (take len str) enc"

definition rugged_str_ascii :: "byte list \<Rightarrow> nat \<Rightarrow> rb_value" where
  "rugged_str_ascii str len = RString (take len str) ASCII_8BIT"

subsection \<open>\<^verbatim>\<open>rb_git_blob_text_GET\<close>\<close>

text \<open>
  The loop \<^verbatim>\<open>while (i < size && lines < maxlines) { if (content[i++] == '\n') lines++; }\<close>
  with \<^verbatim>\<open>size_t i\<close> and \<^verbatim>\<open>int lines, maxlines\<close>; it returns the final \<open>i\<close>.
  The variable \<^verbatim>\<open>size\<close> is \<open>sz\<close>.
\<close>

function text_scan :: "byte list \<Rightarrow> nat \<Rightarrow> nat \<Rightarrow> 32 word \<Rightarrow> 32 word \<Rightarrow> nat" where
  "text_scan content sz i lines maxlines =
     (if i < sz \<and> lines <s maxlines then
        text_scan content sz (i + 1) (if content ! i = NL then lines + 1 else lines) maxlines
      else i)"
  by pat_completeness auto
termination
  by (relation "measure (\<lambda>(content, sz, i, lines, maxlines). sz - i)") auto

declare text_scan.simps [simp del]

text \<open>
  \<open>default_external\<close> is \<^verbatim>\<open>rb_default_external_encoding()\<close> and \<open>rb_to_encoding\<close>
  is Ruby's conversion of a value to an encoding, which may raise; both are parameters.
\<close>

definition rb_git_blob_text_GET ::
  "rb_encoding \<Rightarrow> (rb_value \<Rightarrow> rb_error + rb_encoding) \<Rightarrow>
     byte list \<Rightarrow> rb_value \<Rightarrow> rb_value \<Rightarrow> rb_error + rb_value" where
  "rb_git_blob_text_GET default_external rb_to_encoding content rb_max_lines rb_encoding =
     and_then
       (if \<not> NIL_P rb_max_lines then
          and_then (Check_Type rb_max_lines T_FIXNUM) (\<lambda>_.
          and_then (FIX2INT rb_max_lines) (\<lambda>maxlines.
            Inr (if 0 \<le>s maxlines then text_scan content (length content) 0 0 maxlines
                 else length content)))
        else Inr (length content))
       (\<lambda>sz.
     and_then
       (if \<not> NIL_P rb_encoding then rb_to_encoding rb_encoding else Inr default_external)
       (\<lambda>encoding.
          if sz = 0 then Inr (rugged_str_new [] 0 encoding)
          else Inr (rugged_str_new content sz encoding)))"

text \<open>
  A conversion for concrete runs: the object \<open>k\<close> is the encoding \<open>k\<close>, and nothing
  else converts.
\<close>

fun sample_to_encoding :: "rb_value \<Rightarrow> rb_error + rb_encoding" where
  "sample_to_encoding (RObject k) = Inr (Encoding k)"
| "sample_to_encoding v = Inl TypeError"

subsection \<open>\<^verbatim>\<open>rb_git_blob_content_GET\<close>\<close>

text \<open>
  \<^verbatim>\<open>(size_t)maxbytes\<close> is read only after \<^verbatim>\<open>maxbytes >= 0\<close> held, where the cast
  keeps the value.
\<close>

definition rb_git_blob_content_GET :: "byte list \<Rightarrow> rb_value \<Rightarrow> rb_error + rb_value" where
  "rb_git_blob_content_GET content rb_max_bytes =
     and_then
       (if \<not> NIL_P rb_max_bytes then
          and_then (Check_Type rb_max_bytes T_FIXNUM) (\<lambda>_.
          and_then (FIX2INT rb_max_bytes) (\<lambda>maxbytes.
            Inr (if 0 \<le>s maxbytes \<and> nat (sint maxbytes) < length content
                 then nat (sint maxbytes) else length content)))
        else Inr (length content))
       (\<lambda>sz.
          if sz = 0 then Inr (rugged_str_ascii [] 0)
          else Inr (rugged_str_ascii content sz))"

subsection \<open>\<^verbatim>\<open>cb_blob__get__chunk\<close> and \<^verbatim>\<open>rb_git_blob_from_chunks\<close>\<close>

text \<open>
  The chunk source \<^verbatim>\<open>rb_io\<close> is an object with state: \<open>read io len\<close> is the outcome of
  calling its \<^verbatim>\<open>read\<close> method with argument \<open>len\<close> in state \<open>io\<close>, and the state after
  the call. The call returns a value or raises.
\<close>

datatype read_outcome = Returned rb_value | Raised

type_synonym 'io reader = "'io \<Rightarrow> rb_value \<Rightarrow> read_outcome \<times> 'io"

definition rb_read_check :: "'io reader \<Rightarrow> 'io \<Rightarrow> rb_value \<Rightarrow> read_outcome \<times> 'io" where
  "rb_read_check read io len = read io len"

definition rb_read_failed :: rb_value where
  "rb_read_failed = Qnil"

text \<open>
  Ruby's \<^verbatim>\<open>rb_rescue\<close>: the value of the body, or of the rescue function when the body
  raises (\<open>Raised\<close> stands for an exception \<^verbatim>\<open>rb_rescue\<close> handles, a
  \<^verbatim>\<open>StandardError\<close>).
\<close>

definition rb_rescue :: "read_outcome \<times> 'io \<Rightarrow> rb_value \<Rightarrow> rb_value \<times> 'io" where
  "rb_rescue body rescued =
     (case body of (Returned v, io') \<Rightarrow> (v, io') | (Raised, io') \<Rightarrow> (rescued, io'))"

text \<open>\<^verbatim>\<open>memcpy(dst, src, n)\<close>: the first \<open>n\<close> bytes of \<open>dst\<close> become those of \<open>src\<close>.\<close>

definition memcpy :: "byte list \<Rightarrow> byte list \<Rightarrow> nat \<Rightarrow> byte list" where
  "memcpy dst src n = take n src @ drop n dst"

text \<open>
  The callback returns the \<^verbatim>\<open>int\<close> it reports, the destination buffer \<^verbatim>\<open>content\<close>
  after the call and the state of the chunk source. \<^verbatim>\<open>(int)safe_len\<close> keeps the low
  32 bits of the \<^verbatim>\<open>size_t\<close>.
\<close>

definition cb_blob__get__chunk ::
  "'io reader \<Rightarrow> byte list \<Rightarrow> nat \<Rightarrow> 'io \<Rightarrow> int \<times> byte list \<times> 'io" where
  "cb_blob__get__chunk read content max_length rb_io =
     (case rb_rescue (rb_read_check read rb_io (INT2FIX max_length)) rb_read_failed of
        (rb_buffer, io') \<Rightarrow>
          if NIL_P rb_buffer \<or> TYPE_of rb_buffer \<noteq> T_STRING then (0, content, io')
          else (case rb_buffer of
                  RString str enc \<Rightarrow>
                    let str_len = length str;
                        safe_len = (if str_len > max_length then max_length else str_len)
                    in (sint (word_of_nat safe_len :: 32 word), memcpy content str safe_len, io')
                | _ \<Rightarrow> (0, content, io')))"

text \<open>
  Modelled from the spec: \<^verbatim>\<open>git_blob_create_fromchunks\<close> belongs to the object store
  library, outside \<^verbatim>\<open>rugged_blob.c\<close>. The store pulls chunks from the source
  through the callback, into a buffer of \<open>bufsize\<close> bytes, until the callback reports
  end-of-stream (no bytes), and creates the blob from whatever was read before. The
  result is the store's error code (0: success) and the bytes the blob is created from;
  a source that never ends gives \<open>None\<close>.
\<close>

partial_function (option) fromchunks_pull ::
  "(byte list \<Rightarrow> nat \<Rightarrow> 'io \<Rightarrow> int \<times> byte list \<times> 'io) \<Rightarrow> nat \<Rightarrow>
     byte list \<Rightarrow> byte list \<Rightarrow> 'io \<Rightarrow> byte list option" where
  "fromchunks_pull source_cb bufsize content written payload =
     (case source_cb content bufsize payload of
        (read_bytes, content', payload') \<Rightarrow>
          if read_bytes \<le> 0 then Some written
          else fromchunks_pull source_cb bufsize content'
                 (written @ take (nat read_bytes) content') payload')"

definition git_blob_create_fromchunks ::
  "(byte list \<Rightarrow> nat \<Rightarrow> 'io \<Rightarrow> int \<times> byte list \<times> 'io) \<Rightarrow> nat \<Rightarrow> 'io \<Rightarrow>
     (int \<times> byte list) option" where
  "git_blob_create_fromchunks source_cb bufsize payload =
     map_option (\<lambda>written. (0, written))
       (fromchunks_pull source_cb bufsize (replicate bufsize 0) [] payload)"

text \<open>
  Modelled from the spec: \<^verbatim>\<open>rugged_check_repo\<close> and \<^verbatim>\<open>rugged_exception_check\<close>
  are defined in other files of the extension. The first validates the repository
  handle; the second turns a store-level failure (a negative error code) into a raise.
  \<^verbatim>\<open>StringValueCStr\<close> is Ruby's: it raises on a string with a NUL byte.
\<close>

definition rugged_check_repo :: "rb_value \<Rightarrow> rb_error + unit" where
  "rugged_check_repo rb_repo = (if rb_repo = RRepository then Inr () else Inl TypeError)"

definition rugged_exception_check :: "int \<Rightarrow> rb_error + unit" where
  "rugged_exception_check error = (if error < 0 then Inl GitError else Inr ())"

fun StringValueCStr :: "rb_value \<Rightarrow> rb_error + byte list" where
  "StringValueCStr (RString str enc) = (if 0 \<in> set str then Inl ArgumentError else Inr str)"
| "StringValueCStr v = Inl TypeError"

text \<open>
  The arguments are those \<^verbatim>\<open>rb_scan_args\<close> delivers. The result stands for the oid
  returned: it is the content the blob was created from.
\<close>

definition rb_git_blob_from_chunks ::
  "'io reader \<Rightarrow> nat \<Rightarrow> rb_value \<Rightarrow> 'io \<Rightarrow> rb_value \<Rightarrow> (rb_error + byte list) option" where
  "rb_git_blob_from_chunks read bufsize rb_repo rb_io rb_hint_path =
     (case and_then (rugged_check_repo rb_repo) (\<lambda>_.
             if \<not> NIL_P rb_hint_path then
               and_then (Check_Type rb_hint_path T_STRING) (\<lambda>_.
               and_then (StringValueCStr rb_hint_path) (\<lambda>hint_path. Inr ()))
             else Inr ()) of
        Inl e \<Rightarrow> Some (Inl e)
      | Inr _ \<Rightarrow>
          (case git_blob_create_fromchunks (cb_blob__get__chunk read) bufsize rb_io of
             None \<Rightarrow> None
           | Some (error, blob) \<Rightarrow>
               Some (and_then (rugged_exception_check error) (\<lambda>_. Inr blob))))"

text \<open>
  What a chunk source does over its first reads: \<open>reads_return read len io chunks\<close> is
  the state it reaches when the successive reads return exactly the strings \<open>chunks\<close>.
\<close>

fun reads_return :: "'io reader \<Rightarrow> rb_value \<Rightarrow> 'io \<Rightarrow> byte list list \<Rightarrow> 'io option" where
  "reads_return read len io [] = Some io"
| "reads_return read len io (s # ss) =
     (case read io len of
        (Returned (RString str enc), io') \<Rightarrow>
          if str = s then reads_return read len io' ss else None
      | _ \<Rightarrow> None)"

text \<open>
  A chunk source for concrete runs: the outcomes of its successive reads, and \<^verbatim>\<open>nil\<close>
  once they are used up, as an IO at the end of its file.
\<close>

fun script_read :: "read_outcome list reader" where
  "script_read [] len = (Returned Qnil, [])"
| "script_read (r # rs) len = (r, rs)"

subsection \<open>\<^verbatim>\<open>rb_git_blob_is_binary\<close>\<close>

text \<open>
  Modelled from the spec: \<^verbatim>\<open>git_blob_is_binary\<close> belongs to the object store library,
  outside \<^verbatim>\<open>rugged_blob.c\<close>. The classifier examines at most the first 4000
  bytes; a NUL byte makes the buffer binary at once; otherwise the buffer is binary when
  the ratio of non-printable to printable bytes exceeds a threshold. The spec leaves
  the threshold to the reference heuristic: it is the parameter \<open>num / den\<close>, and the
  ratio \<open>np / p\<close> exceeds it when \<open>num * p < den * np\<close>. Printable bytes are the
  printable ASCII characters, 32 to 126.
\<close>

definition isprint :: "byte \<Rightarrow> bool" where
  "isprint c = (32 \<le> c \<and> c \<le> 126)"

fun binary_scan :: "byte list \<Rightarrow> nat \<Rightarrow> nat \<Rightarrow> (nat \<times> nat) option" where
  "binary_scan [] printable nonprintable = Some (printable, nonprintable)"
| "binary_scan (c # cs) printable nonprintable =
     (if c = 0 then None
      else if isprint c then binary_scan cs (printable + 1) nonprintable
      else binary_scan cs printable (nonprintable + 1))"

definition git_blob_is_binary :: "nat \<Rightarrow> nat \<Rightarrow> byte list \<Rightarrow> bool" where
  "git_blob_is_binary num den blob =
     (case binary_scan (take 4000 blob) 0 0 of
        None \<Rightarrow> True
      | Some (printable, nonprintable) \<Rightarrow> num * printable < den * nonprintable)"

text \<open>The binding itself: \<^verbatim>\<open>git_blob_is_binary(blob) ? Qtrue : Qfalse\<close>.\<close>

definition rb_git_blob_is_binary :: "(byte list \<Rightarrow> bool) \<Rightarrow> byte list \<Rightarrow> rb_value" where
  "rb_git_blob_is_binary is_binary blob = (if is_binary blob then Qtrue else Qfalse)"

subsection \<open>The scans as the specification words them\<close>

text \<open>
  The line count of the specification: each \<^verbatim>\<open>\n\<close> met counts one, and the run of
  whitespace bytes right after it is skipped before the scan resumes.
\<close>

function newline_scan :: "byte list \<Rightarrow> nat" where
  "newline_scan [] = 0"
| "newline_scan (c # cs) =
     (if c = NL then Suc (newline_scan (dropWhile isspace cs)) else newline_scan cs)"
  by pat_completeness auto
termination
  by (relation "measure length") (auto simp: length_dropWhile_le less_Suc_eq_le)

text \<open>
  The specification's sloc: 0 on the empty buffer; otherwise the count of the scan, and
  one more for a last line that no \<^verbatim>\<open>\n\<close> ends.
\<close>

definition sloc_spec :: "byte list \<Rightarrow> nat" where
  "sloc_spec buf =
     (if buf = [] then 0
      else newline_scan buf + (if last buf \<noteq> NL then 1 else 0))"

text \<open>
  The specification's first \<open>n\<close> lines: the bytes consumed by a forward scan that stops
  once \<open>n\<close> newlines have been seen or the buffer ends; the \<open>n\<close>th newline is consumed.
\<close>

fun take_lines :: "nat \<Rightarrow> byte list \<Rightarrow> byte list" where
  "take_lines 0 cs = []"
| "take_lines (Suc n) [] = []"
| "take_lines (Suc n) (c # cs) = c # take_lines (if c = NL then n else Suc n) cs"

section \<open>Source lines of code\<close>

subsection \<open>The loops against the list scans\<close>

lemma skip_space_drop:
  "i \<le> length buf \<Longrightarrow>
     skip_space buf i \<le> length buf \<and>
     drop (skip_space buf i) buf = dropWhile isspace (drop i buf)"
proof (induction buf i rule: skip_space.induct)
  case (1 buf i)
  show ?case
  proof (cases "i < length buf \<and> isspace (buf ! i)")
    case True
    then have d: "drop i buf = buf ! i # drop (i + 1) buf"
      by (simp add: Cons_nth_drop_Suc)
    from True "1.IH" have "skip_space buf (i + 1) \<le> length buf \<and>
      drop (skip_space buf (i + 1)) buf = dropWhile isspace (drop (i + 1) buf)"
      by simp
    with True d show ?thesis
      by (subst (1 2) skip_space.simps) simp
  next
    case False
    show ?thesis
    proof (cases "i < length buf")
      case True
      with False have "\<not> isspace (buf ! i)" by simp
      moreover from True have "drop i buf = buf ! i # drop (i + 1) buf"
        by (simp add: Cons_nth_drop_Suc)
      ultimately show ?thesis using True
        by (subst (1 2) skip_space.simps) simp
    next
      case False
      with "1.prems" show ?thesis
        by (subst (1 2) skip_space.simps) simp
    qed
  qed
qed

text \<open>The outer loop ends with the pointer at the end of the buffer.\<close>

lemma sloc_loop_scan:
  "i \<le> length buf \<Longrightarrow>
     sloc_loop buf i n = (length buf, n + newline_scan (drop i buf))"
proof (induction buf i n rule: sloc_loop.induct)
  case (1 buf i sloc)
  show ?case
  proof (cases "i < length buf")
    case False
    with "1.prems" show ?thesis
      by (subst sloc_loop.simps) simp
  next
    case True
    then have d: "drop i buf = buf ! i # drop (i + 1) buf"
      by (simp add: Cons_nth_drop_Suc)
    from True have le: "i + 1 \<le> length buf" by simp
    show ?thesis
    proof (cases "buf ! i = NL")
      case nl: True
      from skip_space_drop [OF le]
      have b: "skip_space buf (i + 1) \<le> length buf"
        and e: "drop (skip_space buf (i + 1)) buf = dropWhile isspace (drop (i + 1) buf)"
        by simp_all
      from "1.IH"(1) [OF True nl b] e True nl d show ?thesis
        by (subst sloc_loop.simps) simp
    next
      case nnl: False
      from "1.IH"(2) [OF True nnl le] True nnl d show ?thesis
        by (subst sloc_loop.simps) simp
    qed
  qed
qed

lemma sloc_refines: "rb_git_blob_sloc buf = sloc_spec buf"
proof (cases "buf = []")
  case True
  then show ?thesis by (simp add: rb_git_blob_sloc_def sloc_spec_def)
next
  case False
  then have "buf ! (length buf - 1) = last buf"
    by (simp add: last_conv_nth)
  with False sloc_loop_scan [of 0 buf 0] show ?thesis
    by (simp add: rb_git_blob_sloc_def sloc_spec_def)
qed

lemma newline_scan_pos: "NL \<in> set cs \<Longrightarrow> 0 < newline_scan cs"
  by (induction cs) auto

lemma newline_scan_zero: "NL \<notin> set cs \<Longrightarrow> newline_scan cs = 0"
  by (induction cs) auto

subsection \<open>The claims on sloc\<close>

text \<open>
  C1. For every buffer, \<open>rb_git_blob_sloc\<close> follows the byte scan of the specification:
  each \<^verbatim>\<open>\n\<close> the scan meets counts one, the run of whitespace bytes right after a
  counted \<^verbatim>\<open>\n\<close> is skipped before the scan resumes (so a blank line made of whitespace
  adds nothing of its own), and a last byte other than \<^verbatim>\<open>\n\<close> counts one more. In
  particular the sloc of \<^verbatim>\<open>"\n\n\n"\<close> is 1 and that of \<^verbatim>\<open>"a\nb\nc\n"\<close> is 3.
\<close>

theorem sloc_follows_scan:
  "rb_git_blob_sloc buf = sloc_spec buf
   \<and> rb_git_blob_sloc [NL, NL, NL] = 1
   \<and> rb_git_blob_sloc [97, NL, 98, NL, 99, NL] = 3"
proof -
  have "sloc_spec [NL, NL, NL] = 1"
    by (simp add: sloc_spec_def isspace_def)
  moreover have "sloc_spec [97, NL, 98, NL, 99, NL] = 3"
    by (simp add: sloc_spec_def isspace_def)
  ultimately show ?thesis
    by (simp only: sloc_refines)
qed

text \<open>
  C2. For every non-empty buffer whose final byte is not \<^verbatim>\<open>\n\<close>, the sloc is one more
  than the count the newline scan alone yields: the count of the loop of the source,
  which is the count of the specification's scan.
\<close>

theorem sloc_unterminated_tail:
  assumes "buf \<noteq> []" and "last buf \<noteq> NL"
  shows "rb_git_blob_sloc buf = snd (sloc_loop buf 0 0) + 1
         \<and> snd (sloc_loop buf 0 0) = newline_scan buf"
proof -
  have "sloc_loop buf 0 0 = (length buf, newline_scan buf)"
    using sloc_loop_scan [of 0 buf 0] by simp
  moreover from assms have "rb_git_blob_sloc buf = newline_scan buf + 1"
    by (simp add: sloc_refines sloc_spec_def)
  ultimately show ?thesis by simp
qed

text \<open>The buffer \<^verbatim>\<open>"a\nb\nc"\<close>: two newlines in the scan, and the tail; sloc 3.\<close>

theorem sloc_unterminated_tail_witness:
  "[97, NL, 98, NL, 99] \<noteq> [] \<and> last [97, NL, 98, NL, 99] \<noteq> NL
   \<and> snd (sloc_loop [97, NL, 98, NL, 99] 0 0) = 2
   \<and> rb_git_blob_sloc [97, NL, 98, NL, 99] = 3"
  using sloc_unterminated_tail [of "[97, NL, 98, NL, 99]"]
  by (simp add: isspace_def)

text \<open>C3. The sloc of the empty buffer is 0.\<close>

theorem sloc_empty: "rb_git_blob_sloc [] = 0"
  by (simp add: rb_git_blob_sloc_def)

text \<open>
  C9. For every non-empty buffer the sloc is at least 1; and a non-empty buffer without
  any \<^verbatim>\<open>\n\<close>, such as one made up of whitespace only (\<^verbatim>\<open>"   "\<close>), has sloc exactly 1,
  through the rule for the unterminated tail.
\<close>

theorem sloc_nonempty_positive:
  "(buf \<noteq> [] \<longrightarrow> 1 \<le> rb_git_blob_sloc buf)
   \<and> (buf \<noteq> [] \<and> NL \<notin> set buf \<longrightarrow> rb_git_blob_sloc buf = 1)"
proof (intro conjI impI)
  assume ne: "buf \<noteq> []"
  show "1 \<le> rb_git_blob_sloc buf"
  proof (cases "last buf = NL")
    case True
    with ne have "NL \<in> set buf" using last_in_set [of buf] by auto
    then have "0 < newline_scan buf" by (rule newline_scan_pos)
    with ne True show ?thesis by (simp add: sloc_refines sloc_spec_def)
  next
    case False
    with ne show ?thesis by (simp add: sloc_refines sloc_spec_def)
  qed
next
  assume a: "buf \<noteq> [] \<and> NL \<notin> set buf"
  then have "last buf \<in> set buf" by simp
  with a have "last buf \<noteq> NL" by metis
  with a show "rb_git_blob_sloc buf = 1"
    by (simp add: sloc_refines sloc_spec_def newline_scan_zero)
qed

text \<open>Three spaces: whitespace only, no newline, sloc 1.\<close>

theorem sloc_nonempty_positive_witness:
  "[32, 32, 32] \<noteq> ([] :: byte list) \<and> NL \<notin> set [32, 32, 32 :: byte]
   \<and> isspace 32
   \<and> 1 \<le> rb_git_blob_sloc [32, 32, 32] \<and> rb_git_blob_sloc [32, 32, 32] = 1"
  using sloc_nonempty_positive [of "[32, 32, 32]"]
  by (simp add: isspace_def)

section \<open>Bounded extraction\<close>

subsection \<open>The line loop against the list scan\<close>

lemma take_lines_Nil [simp]: "take_lines n [] = []"
  by (cases n) simp_all

lemma take_lines_Cons:
  "take_lines n (c # cs) =
     (if n = 0 then [] else c # take_lines (if c = NL then n - 1 else n) cs)"
  by (cases n) simp_all

lemma take_lines_prefix: "take (length (take_lines n cs)) cs = take_lines n cs"
  by (induction n cs rule: take_lines.induct) simp_all

lemma sint_succ:
  fixes l m :: "32 word"
  assumes "sint l < sint m"
  shows "sint (l + 1) = sint l + 1"
proof -
  have "sint m < 2 ^ 31" using sint_lt [of m] by simp
  moreover have "- (2 ^ 31) \<le> sint l" using sint_ge [of l] by simp
  ultimately have "- (2 ^ 31) \<le> sint l + 1" "sint l + 1 < 2 ^ 31" using assms by simp_all
  then have "signed_take_bit 31 (sint l + 1) = sint l + 1"
    by (simp add: signed_take_bit_int_eq_self)
  then show ?thesis by (simp add: sint_word_ariths)
qed

lemma text_scan_take_lines:
  "sz = length content \<Longrightarrow> i \<le> sz \<Longrightarrow> sint l \<le> sint m \<Longrightarrow>
     text_scan content sz i l m =
       i + length (take_lines (nat (sint m - sint l)) (drop i content))"
proof (induction content sz i l m rule: text_scan.induct)
  case (1 content sz i l m)
  show ?case
  proof (cases "i < sz \<and> l <s m")
    case False
    with "1.prems" have "i = length content \<or> sint m - sint l = 0"
      by (auto simp: word_sless_alt)
    with False show ?thesis
      by (subst text_scan.simps) auto
  next
    case True
    with "1.prems" have lt: "sint l < sint m" and i: "i < length content"
      by (simp_all add: word_sless_alt)
    from i have d: "drop i content = content ! i # drop (i + 1) content"
      by (simp add: Cons_nth_drop_Suc)
    obtain k where k: "nat (sint m - sint l) = Suc k"
      using lt by (cases "nat (sint m - sint l)") auto
    let ?l' = "if content ! i = NL then l + 1 else l"
    have l': "sint ?l' \<le> sint m"
      "nat (sint m - sint ?l') = (if content ! i = NL then k else Suc k)"
      using lt k sint_succ [OF lt] by auto
    from i "1.prems" have "i + 1 \<le> sz" by simp
    from "1.IH" [OF True "1.prems"(1) this l'(1)] l'(2) True d k show ?thesis
      by (subst text_scan.simps) simp
  qed
qed

lemma take_lines_count: "count_list (take_lines n cs) NL = min n (count_list cs NL)"
  by (induction n cs rule: take_lines.induct) auto

lemma take_lines_all: "count_list cs NL < n \<Longrightarrow> take_lines n cs = cs"
  by (induction n cs rule: take_lines.induct) auto

lemma take_lines_all_nl:
  "count_list cs NL = n \<Longrightarrow> cs \<noteq> [] \<Longrightarrow> last cs = NL \<Longrightarrow> take_lines n cs = cs"
proof (induction n cs rule: take_lines.induct)
  case (1 cs)
  then have "NL \<in> set cs" using last_in_set [of cs] by auto
  with 1 show ?case by (simp add: count_list_0_iff)
next
  case (2 n)
  then show ?case by simp
next
  case (3 n c cs)
  then show ?case by (cases "cs = []") (auto split: if_splits)
qed

lemma take_lines_last:
  "0 < n \<Longrightarrow> n \<le> count_list cs NL \<Longrightarrow> take_lines n cs \<noteq> [] \<and> last (take_lines n cs) = NL"
proof (induction n cs rule: take_lines.induct)
  case (3 n c cs)
  then show ?case by (cases n) (auto split: if_splits)
qed simp_all

lemma FIX2INT_sint: "FIX2INT (Fixnum (sint (n :: 32 word))) = Inr n"
  using sint_ge [of n] sint_lt [of n] by simp

lemma text_GET_fixnum:
  fixes n :: "32 word"
  shows "rb_git_blob_text_GET d f buf (Fixnum (sint n)) Qnil =
     Inr (RString (if 0 \<le> sint n then take_lines (nat (sint n)) buf else buf) d)"
proof (cases "0 \<le> sint n")
  case True
  then have "text_scan buf (length buf) 0 0 n = length (take_lines (nat (sint n)) buf)"
    using text_scan_take_lines [of "length buf" buf 0 0 n] by simp
  with True show ?thesis
    by (simp add: rb_git_blob_text_GET_def NIL_P_def Check_Type_def FIX2INT_sint
          word_sle_eq rugged_str_new_def take_lines_prefix del: FIX2INT.simps)
next
  case False
  then show ?thesis
    by (simp add: rb_git_blob_text_GET_def NIL_P_def Check_Type_def FIX2INT_sint
          word_sle_eq rugged_str_new_def del: FIX2INT.simps)
qed

lemma text_GET_nil:
  "rb_git_blob_text_GET d f buf Qnil Qnil = Inr (RString buf d)"
  by (simp add: rb_git_blob_text_GET_def NIL_P_def rugged_str_new_def)

lemma content_GET_fixnum:
  fixes n :: "32 word"
  shows "rb_git_blob_content_GET buf (Fixnum (sint n)) =
     Inr (RString (if 0 \<le> sint n then take (min (nat (sint n)) (length buf)) buf else buf)
            ASCII_8BIT)"
  by (simp add: rb_git_blob_content_GET_def NIL_P_def Check_Type_def FIX2INT_sint
        word_sle_eq rugged_str_ascii_def min_def del: FIX2INT.simps)

lemma content_GET_nil:
  "rb_git_blob_content_GET buf Qnil = Inr (RString buf ASCII_8BIT)"
  by (simp add: rb_git_blob_content_GET_def NIL_P_def rugged_str_ascii_def)

subsection \<open>The claims on extraction\<close>

text \<open>
  C4, as the source has it. \<open>N\<close> is the C \<^verbatim>\<open>int\<close> that \<^verbatim>\<open>maxlines\<close> holds. For
  \<open>N \<ge> 0\<close>, \<open>text\<close> with \<open>max_lines = N\<close> returns the prefix a forward scan consumes
  when it stops as soon as \<open>N\<close> newlines have been seen or the buffer ends; when the
  buffer has at least \<open>N > 0\<close> newlines this prefix ends with the \<open>N\<close>th newline and
  holds exactly \<open>N\<close> of them. The full buffer is returned when \<open>N\<close> exceeds the number
  of newlines of the buffer, and when \<open>N\<close> equals it and the buffer is empty or ends
  with a newline. \<open>N < 0\<close> is unlimited.
\<close>

theorem text_GET_first_lines:
  fixes n :: "32 word"
  shows
  "(0 \<le> sint n \<longrightarrow>
      rb_git_blob_text_GET d f buf (Fixnum (sint n)) Qnil =
        Inr (RString (take_lines (nat (sint n)) buf) d))
   \<and> (0 < sint n \<and> sint n \<le> int (count_list buf NL) \<longrightarrow>
        take_lines (nat (sint n)) buf \<noteq> [] \<and> last (take_lines (nat (sint n)) buf) = NL
        \<and> int (count_list (take_lines (nat (sint n)) buf) NL) = sint n)
   \<and> (int (count_list buf NL) < sint n
        \<or> int (count_list buf NL) = sint n \<and> (buf = [] \<or> last buf = NL) \<longrightarrow>
        rb_git_blob_text_GET d f buf (Fixnum (sint n)) Qnil = Inr (RString buf d))
   \<and> (sint n < 0 \<longrightarrow>
        rb_git_blob_text_GET d f buf (Fixnum (sint n)) Qnil = Inr (RString buf d))"
proof -
  have scan: "0 \<le> sint n \<longrightarrow>
      rb_git_blob_text_GET d f buf (Fixnum (sint n)) Qnil =
        Inr (RString (take_lines (nat (sint n)) buf) d)"
    by (simp add: text_GET_fixnum)
  have nth: "0 < sint n \<and> sint n \<le> int (count_list buf NL) \<longrightarrow>
        take_lines (nat (sint n)) buf \<noteq> [] \<and> last (take_lines (nat (sint n)) buf) = NL
        \<and> int (count_list (take_lines (nat (sint n)) buf) NL) = sint n"
  proof
    assume a: "0 < sint n \<and> sint n \<le> int (count_list buf NL)"
    then have "0 < nat (sint n)" "nat (sint n) \<le> count_list buf NL"
      by (simp_all add: nat_le_iff)
    from take_lines_last [OF this] take_lines_count [of "nat (sint n)" buf] this a
    show "take_lines (nat (sint n)) buf \<noteq> [] \<and> last (take_lines (nat (sint n)) buf) = NL
        \<and> int (count_list (take_lines (nat (sint n)) buf) NL) = sint n"
      by simp
  qed
  have full: "int (count_list buf NL) < sint n
        \<or> int (count_list buf NL) = sint n \<and> (buf = [] \<or> last buf = NL) \<longrightarrow>
        rb_git_blob_text_GET d f buf (Fixnum (sint n)) Qnil = Inr (RString buf d)"
  proof
    assume a: "int (count_list buf NL) < sint n
        \<or> int (count_list buf NL) = sint n \<and> (buf = [] \<or> last buf = NL)"
    then have nn: "0 \<le> sint n" by auto
    from a have "take_lines (nat (sint n)) buf = buf"
    proof (elim disjE conjE)
      assume "int (count_list buf NL) < sint n"
      then have "count_list buf NL < nat (sint n)" by simp
      then show ?thesis by (rule take_lines_all)
    next
      assume "buf = []"
      then show ?thesis by simp
    next
      assume "int (count_list buf NL) = sint n" "last buf = NL"
      then show ?thesis
        by (cases "buf = []") (simp_all add: take_lines_all_nl)
    qed
    with nn show "rb_git_blob_text_GET d f buf (Fixnum (sint n)) Qnil = Inr (RString buf d)"
      by (simp add: text_GET_fixnum)
  qed
  have neg: "sint n < 0 \<longrightarrow>
        rb_git_blob_text_GET d f buf (Fixnum (sint n)) Qnil = Inr (RString buf d)"
    by (simp add: text_GET_fixnum)
  show ?thesis
    by (rule conjI [OF scan conjI [OF nth conjI [OF full neg]]])
qed

text \<open>
  Two lines of \<^verbatim>\<open>"x\ny\nz\n"\<close> are \<^verbatim>\<open>"x\ny\n"\<close>; three lines are the whole of it;
  two lines of \<^verbatim>\<open>"a\nb"\<close>, which has one newline, and a negative bound give the whole
  buffer.
\<close>

theorem text_GET_first_lines_witness:
  "rb_git_blob_text_GET (Encoding 0) sample_to_encoding [120, NL, 121, NL, 122, NL] (Fixnum 2) Qnil
     = Inr (RString [120, NL, 121, NL] (Encoding 0))
   \<and> last [120, NL, 121, NL] = NL \<and> count_list [120, NL, 121, NL] NL = 2
   \<and> rb_git_blob_text_GET (Encoding 0) sample_to_encoding [120, NL, 121, NL, 122, NL] (Fixnum 3) Qnil
     = Inr (RString [120, NL, 121, NL, 122, NL] (Encoding 0))
   \<and> rb_git_blob_text_GET (Encoding 0) sample_to_encoding [97, NL, 98] (Fixnum 2) Qnil
     = Inr (RString [97, NL, 98] (Encoding 0))
   \<and> rb_git_blob_text_GET (Encoding 0) sample_to_encoding [97, NL, 98] (Fixnum (- 1)) Qnil
     = Inr (RString [97, NL, 98] (Encoding 0))"
  using text_GET_first_lines [of 2 "Encoding 0" sample_to_encoding "[120, NL, 121, NL, 122, NL]"]
    text_GET_first_lines [of 3 "Encoding 0" sample_to_encoding "[120, NL, 121, NL, 122, NL]"]
    text_GET_first_lines [of 2 "Encoding 0" sample_to_encoding "[97, NL, 98]"]
    text_GET_first_lines [of "- 1" "Encoding 0" sample_to_encoding "[97, NL, 98]"]
  by (simp add: take_lines_Cons)

text \<open>
  C4 as the specification words it fails: \<^verbatim>\<open>"a\nb"\<close> has one newline, and with
  \<open>N = 1\<close> the scan stops after that newline, so \<^verbatim>\<open>"a\n"\<close> is returned and not the
  full buffer.
\<close>

theorem text_GET_first_lines_counterexample:
  "int (count_list [97, NL, 98] NL) \<le> 1
   \<and> rb_git_blob_text_GET (Encoding 0) sample_to_encoding [97, NL, 98] (Fixnum 1) Qnil
       = Inr (RString [97, NL] (Encoding 0))
   \<and> [97, NL] \<noteq> [97, NL, 98 :: byte]"
  by (simp add: rb_git_blob_text_GET_def NIL_P_def Check_Type_def word_sle_eq word_sless_alt
        text_scan.simps rugged_str_new_def)


text \<open>
  C5, as the source has it. For every buffer and every integer \<open>N\<close> that fits the C
  \<^verbatim>\<open>int\<close> \<^verbatim>\<open>maxbytes\<close> (\<open>-2^31 \<le> N < 2^31\<close>, here \<open>N = sint n\<close>), \<open>content\<close> with
  \<open>max_bytes = N\<close> returns the first \<open>min N (length buf)\<close> bytes when \<open>N \<ge> 0\<close>, nothing
  for \<open>N = 0\<close>, and the full buffer when \<open>N < 0\<close>: within the range of \<^verbatim>\<open>int\<close> a bound
  beyond the buffer is clamped and never rejected.
\<close>

theorem content_GET_first_bytes:
  fixes n :: "32 word"
  shows
  "rb_git_blob_content_GET buf (Fixnum (sint n)) =
     Inr (RString (if 0 \<le> sint n then take (min (nat (sint n)) (length buf)) buf else buf)
            ASCII_8BIT)
   \<and> rb_git_blob_content_GET buf (Fixnum 0) = Inr (RString [] ASCII_8BIT)"
  using content_GET_fixnum [of buf n] content_GET_fixnum [of buf 0] by simp

text \<open>Two bytes, seven bytes and a negative bound on the three bytes \<^verbatim>\<open>"a\nb"\<close>.\<close>

theorem content_GET_first_bytes_witness:
  "rb_git_blob_content_GET [97, NL, 98] (Fixnum 2) = Inr (RString [97, NL] ASCII_8BIT)
   \<and> rb_git_blob_content_GET [97, NL, 98] (Fixnum 7) = Inr (RString [97, NL, 98] ASCII_8BIT)
   \<and> rb_git_blob_content_GET [97, NL, 98] (Fixnum (- 7)) = Inr (RString [97, NL, 98] ASCII_8BIT)"
  using content_GET_first_bytes [of "[97, NL, 98]" 2]
    content_GET_first_bytes [of "[97, NL, 98]" 7]
    content_GET_first_bytes [of "[97, NL, 98]" "- 7"]
  by simp

text \<open>
  C5 as the specification words it fails: the bound \<open>2^31\<close> is an integer, it does not
  fit \<^verbatim>\<open>int\<close>, and \<^verbatim>\<open>FIX2INT\<close> raises instead of the bound being clamped to the three
  bytes of the buffer.
\<close>

theorem content_GET_first_bytes_counterexample:
  "rb_git_blob_content_GET [97, NL, 98] (Fixnum 2147483648) = Inl RangeError"
  by (simp add: rb_git_blob_content_GET_def NIL_P_def Check_Type_def)

text \<open>
  C6, as the source has it. For every buffer, \<open>text\<close> and \<open>content\<close> called with no
  bound, or with a negative bound that fits a C \<^verbatim>\<open>int\<close> (\<open>-2^31 \<le> N < 0\<close>, here
  \<open>N = sint n\<close>), return the bytes of the buffer unchanged, also when \<open>text\<close> is given
  an encoding that converts.
\<close>

theorem unlimited_round_trip:
  fixes n :: "32 word"
  shows
  "rb_git_blob_text_GET d f buf Qnil Qnil = Inr (RString buf d)
   \<and> (sint n < 0 \<longrightarrow>
        rb_git_blob_text_GET d f buf (Fixnum (sint n)) Qnil = Inr (RString buf d))
   \<and> (\<not> NIL_P e \<and> f e = Inr enc \<longrightarrow>
        rb_git_blob_text_GET d f buf Qnil e = Inr (RString buf enc))
   \<and> (sint n < 0 \<and> \<not> NIL_P e \<and> f e = Inr enc \<longrightarrow>
        rb_git_blob_text_GET d f buf (Fixnum (sint n)) e = Inr (RString buf enc))
   \<and> rb_git_blob_content_GET buf Qnil = Inr (RString buf ASCII_8BIT)
   \<and> (sint n < 0 \<longrightarrow>
        rb_git_blob_content_GET buf (Fixnum (sint n)) = Inr (RString buf ASCII_8BIT))"
proof -
  have t1: "rb_git_blob_text_GET d f buf Qnil Qnil = Inr (RString buf d)"
    by (rule text_GET_nil)
  have t2: "sint n < 0 \<longrightarrow>
        rb_git_blob_text_GET d f buf (Fixnum (sint n)) Qnil = Inr (RString buf d)"
    by (simp add: text_GET_fixnum)
  have t3: "\<not> NIL_P e \<and> f e = Inr enc \<longrightarrow>
        rb_git_blob_text_GET d f buf Qnil e = Inr (RString buf enc)"
    by (simp add: rb_git_blob_text_GET_def NIL_P_def rugged_str_new_def)
  have t4: "sint n < 0 \<and> \<not> NIL_P e \<and> f e = Inr enc \<longrightarrow>
        rb_git_blob_text_GET d f buf (Fixnum (sint n)) e = Inr (RString buf enc)"
    by (simp add: rb_git_blob_text_GET_def NIL_P_def Check_Type_def FIX2INT_sint
          word_sle_eq rugged_str_new_def del: FIX2INT.simps)
  have c1: "rb_git_blob_content_GET buf Qnil = Inr (RString buf ASCII_8BIT)"
    by (rule content_GET_nil)
  have c2: "sint n < 0 \<longrightarrow>
        rb_git_blob_content_GET buf (Fixnum (sint n)) = Inr (RString buf ASCII_8BIT)"
    by (simp add: content_GET_fixnum)
  show ?thesis
    by (rule conjI [OF t1 conjI [OF t2 conjI [OF t3 conjI [OF t4 conjI [OF c1 c2]]]]])
qed

text \<open>The buffer \<^verbatim>\<open>"a\nb"\<close>, no bound and the bound \<open>-1\<close>, with and without an encoding.\<close>

theorem unlimited_round_trip_witness:
  "rb_git_blob_text_GET (Encoding 0) sample_to_encoding [97, NL, 98] Qnil Qnil
     = Inr (RString [97, NL, 98] (Encoding 0))
   \<and> rb_git_blob_text_GET (Encoding 0) sample_to_encoding [97, NL, 98] (Fixnum (- 1)) Qnil
     = Inr (RString [97, NL, 98] (Encoding 0))
   \<and> rb_git_blob_text_GET (Encoding 0) sample_to_encoding [97, NL, 98] Qnil (RObject 5)
     = Inr (RString [97, NL, 98] (Encoding 5))
   \<and> rb_git_blob_text_GET (Encoding 0) sample_to_encoding [97, NL, 98] (Fixnum (- 1)) (RObject 5)
     = Inr (RString [97, NL, 98] (Encoding 5))
   \<and> rb_git_blob_content_GET [97, NL, 98] Qnil = Inr (RString [97, NL, 98] ASCII_8BIT)
   \<and> rb_git_blob_content_GET [97, NL, 98] (Fixnum (- 1)) = Inr (RString [97, NL, 98] ASCII_8BIT)"
  using unlimited_round_trip
    [of "Encoding 0" sample_to_encoding "[97, NL, 98]" "- 1" "RObject 5" "Encoding 5"]
  by (simp add: NIL_P_def)

text \<open>
  C6 as the specification words it fails: the bound \<open>-2^31 - 1\<close> is negative, it does
  not fit \<^verbatim>\<open>int\<close>, and both \<open>text\<close> and \<open>content\<close> raise in \<^verbatim>\<open>FIX2INT\<close>, before the
  sign of the bound is looked at, instead of returning the buffer.
\<close>

theorem unlimited_round_trip_counterexample:
  "(- 2147483649 :: int) < 0
   \<and> rb_git_blob_text_GET (Encoding 0) sample_to_encoding [97, NL, 98]
         (Fixnum (- 2147483649)) Qnil = Inl RangeError
   \<and> rb_git_blob_content_GET [97, NL, 98] (Fixnum (- 2147483649)) = Inl RangeError"
  by (simp add: rb_git_blob_text_GET_def rb_git_blob_content_GET_def NIL_P_def Check_Type_def)

section \<open>Blob creation from chunks\<close>

subsection \<open>What the callback returns\<close>

lemma sint_of_nat_small: "k < 2 ^ 31 \<Longrightarrow> sint (word_of_nat k :: 32 word) = int k"
proof -
  assume "k < 2 ^ 31"
  then have "int k < int (2 ^ 31)" by (simp only: of_nat_less_iff)
  then have "int k < 2 ^ 31" by (simp only: of_nat_power of_nat_numeral)
  moreover have "- (2 ^ 31) \<le> int k" by simp
  ultimately have "signed_take_bit 31 (int k) = int k"
    by (simp only: signed_take_bit_int_eq_self)
  moreover have "sint (word_of_nat k :: 32 word) = signed_take_bit 31 (int k)"
    using signed_of_nat [of k, where ?'a = int and ?'b = 32] by simp
  ultimately show ?thesis by simp
qed

lemma cb_raised:
  "fst (read io (INT2FIX m)) = Raised \<Longrightarrow>
     cb_blob__get__chunk read content m io = (0, content, snd (read io (INT2FIX m)))"
  by (cases "read io (INT2FIX m)")
     (simp add: cb_blob__get__chunk_def rb_rescue_def rb_read_check_def rb_read_failed_def NIL_P_def)

lemma cb_not_string:
  "read io (INT2FIX m) = (Returned v, io') \<Longrightarrow> NIL_P v \<or> TYPE_of v \<noteq> T_STRING \<Longrightarrow>
     cb_blob__get__chunk read content m io = (0, content, io')"
  by (auto simp add: cb_blob__get__chunk_def rb_rescue_def rb_read_check_def)

lemma cb_string:
  "read io (INT2FIX m) = (Returned (RString s enc), io') \<Longrightarrow>
     cb_blob__get__chunk read content m io =
       (sint (word_of_nat (min (length s) m) :: 32 word),
        take (min (length s) m) s @ drop (min (length s) m) content, io')"
  by (simp add: cb_blob__get__chunk_def rb_rescue_def rb_read_check_def NIL_P_def memcpy_def
        min_def Let_def)

lemma cb_content_cases:
  "\<exists>k src. k \<le> m \<and> k \<le> length src \<and>
     fst (snd (cb_blob__get__chunk read content m io)) = take k src @ drop k content"
proof (cases "read io (INT2FIX m)")
  case (Pair r io')
  show ?thesis
  proof (cases r)
    case Raised
    with Pair have "fst (snd (cb_blob__get__chunk read content m io)) = take 0 [] @ drop 0 content"
      by (simp add: cb_raised)
    then show ?thesis by (intro exI [of _ 0] exI [of _ "[]"]) simp
  next
    case (Returned v)
    show ?thesis
    proof (cases "NIL_P v \<or> TYPE_of v \<noteq> T_STRING")
      case True
      with Pair Returned
      have "fst (snd (cb_blob__get__chunk read content m io)) = take 0 [] @ drop 0 content"
        by (simp add: cb_not_string [of read io m v io'])
      then show ?thesis by (intro exI [of _ 0] exI [of _ "[]"]) simp
    next
      case False
      then obtain s enc where "v = RString s enc" by (cases v) auto
      with Pair Returned
      have "fst (snd (cb_blob__get__chunk read content m io)) =
              take (min (length s) m) s @ drop (min (length s) m) content"
        by (simp add: cb_string [of read io m s enc io'])
      then show ?thesis
        by (intro exI [of _ "min (length s) m"] exI [of _ s]) simp
    qed
  qed
qed

lemma pull_chunks:
  "reads_return read (INT2FIX b) io chunks = Some io' \<Longrightarrow> \<forall>s\<in>set chunks. s \<noteq> [] \<Longrightarrow>
     0 < b \<Longrightarrow> b < 2 ^ 31 \<Longrightarrow> fst (read io' (INT2FIX b)) = Raised \<Longrightarrow>
     fromchunks_pull (cb_blob__get__chunk read) b content written io =
       Some (written @ concat (map (take b) chunks))"
proof (induction chunks arbitrary: io content written)
  case Nil
  then show ?case
    by (subst fromchunks_pull.simps) (simp add: cb_raised)
next
  case (Cons s ss)
  from Cons.prems(1) obtain enc io1 where
    r: "read io (INT2FIX b) = (Returned (RString s enc), io1)"
    and rest: "reads_return read (INT2FIX b) io1 ss = Some io'"
    by (auto split: prod.splits read_outcome.splits rb_value.splits if_splits)
  let ?k = "min (length s) b"
  from Cons.prems have k: "0 < ?k" "?k < 2 ^ 31" by auto
  then have n: "sint (word_of_nat ?k :: 32 word) = int ?k"
    by (simp add: sint_of_nat_small)
  from Cons.prems have ih: "fromchunks_pull (cb_blob__get__chunk read) b c w io1 =
       Some (w @ concat (map (take b) ss))" for c w
    using Cons.IH [OF rest] by simp
  have tk: "take ?k (take ?k s @ drop ?k content) = take b s"
    by (simp add: min_def)
  show ?case
    by (subst fromchunks_pull.simps)
      (use k tk in \<open>simp add: cb_string [of read, OF r] n ih del: take_append\<close>)
qed

subsection \<open>The claims on the chunk callback\<close>

text \<open>
  C7. Let the chunk source return the non-empty strings \<open>chunks\<close> on its first reads and
  raise on the next one. Then the callback reports zero bytes for the read that raises
  and leaves the buffer as it was, the stream ends there, and the creation succeeds: the
  blob is created from the data read before the failure (of each string, the bytes the
  callback copies). The store's buffer has a size that fits a C \<^verbatim>\<open>int\<close>, and the hint
  path is absent or a string without NUL.
\<close>

theorem from_chunks_read_failure:
  assumes reads: "reads_return read (INT2FIX bufsize) io chunks = Some io'"
    and nonempty: "\<forall>s \<in> set chunks. s \<noteq> []"
    and raised: "fst (read io' (INT2FIX bufsize)) = Raised"
    and size: "0 < bufsize" "bufsize < 2 ^ 31"
    and hint: "NIL_P hint \<or> (\<exists>path enc. hint = RString path enc \<and> 0 \<notin> set path)"
  shows "cb_blob__get__chunk read content bufsize io' =
           (0, content, snd (read io' (INT2FIX bufsize)))
         \<and> git_blob_create_fromchunks (cb_blob__get__chunk read) bufsize io =
             Some (0, concat (map (take bufsize) chunks))
         \<and> rb_git_blob_from_chunks read bufsize RRepository io hint =
             Some (Inr (concat (map (take bufsize) chunks)))"
proof -
  have cb: "cb_blob__get__chunk read content bufsize io' =
           (0, content, snd (read io' (INT2FIX bufsize)))"
    using raised by (rule cb_raised)
  have create: "git_blob_create_fromchunks (cb_blob__get__chunk read) bufsize io =
             Some (0, concat (map (take bufsize) chunks))"
    using pull_chunks [OF reads nonempty size raised]
    by (simp add: git_blob_create_fromchunks_def)
  have args: "and_then (rugged_check_repo RRepository) (\<lambda>_.
             if \<not> NIL_P hint then
               and_then (Check_Type hint T_STRING) (\<lambda>_.
               and_then (StringValueCStr hint) (\<lambda>hint_path. Inr ()))
             else Inr ()) = Inr ()"
    using hint by (auto simp: rugged_check_repo_def Check_Type_def NIL_P_def)
  have "rb_git_blob_from_chunks read bufsize RRepository io hint =
             Some (Inr (concat (map (take bufsize) chunks)))"
    unfolding rb_git_blob_from_chunks_def args
    by (simp add: create rugged_exception_check_def)
  with cb create show ?thesis by simp
qed

text \<open>
  A source that returns \<^verbatim>\<open>"ab"\<close>, then \<^verbatim>\<open>"c"\<close>, then raises, and would return \<^verbatim>\<open>"d"\<close>
  after that: the blob is \<^verbatim>\<open>"abc"\<close>.
\<close>

theorem from_chunks_read_failure_witness:
  "reads_return script_read (INT2FIX 4)
      [Returned (RString [97, 98] ASCII_8BIT), Returned (RString [99] ASCII_8BIT), Raised,
       Returned (RString [100] ASCII_8BIT)]
      [[97, 98], [99]]
     = Some [Raised, Returned (RString [100] ASCII_8BIT)]
   \<and> cb_blob__get__chunk script_read [0, 0, 0, 0] 4
        [Raised, Returned (RString [100] ASCII_8BIT)]
     = (0, [0, 0, 0, 0], [Returned (RString [100] ASCII_8BIT)])
   \<and> rb_git_blob_from_chunks script_read 4 RRepository
        [Returned (RString [97, 98] ASCII_8BIT), Returned (RString [99] ASCII_8BIT), Raised,
         Returned (RString [100] ASCII_8BIT)] Qnil
     = Some (Inr [97, 98, 99])"
  using from_chunks_read_failure [of script_read 4
      "[Returned (RString [97, 98] ASCII_8BIT), Returned (RString [99] ASCII_8BIT), Raised,
        Returned (RString [100] ASCII_8BIT)]"
      "[[97, 98], [99]]" "[Raised, Returned (RString [100] ASCII_8BIT)]" Qnil "[0, 0, 0, 0]"]
  by (simp add: NIL_P_def)

text \<open>
  C10. Whatever the read returns, the callback changes at most the first \<open>max_length\<close>
  bytes of the destination buffer: the bytes from \<open>max_length\<close> on are untouched, and a
  buffer of at least \<open>max_length\<close> bytes keeps its length. When the read returns a string,
  its first \<open>min (length str) max_length\<close> bytes are copied and that number is reported.
  When the read returns \<^verbatim>\<open>nil\<close> or a value that is not a string, the callback reports
  zero bytes, copies nothing and does not raise.
\<close>

theorem chunk_callback_bounded:
  "drop max_length (fst (snd (cb_blob__get__chunk read content max_length io)))
     = drop max_length content
   \<and> (max_length \<le> length content \<longrightarrow>
        length (fst (snd (cb_blob__get__chunk read content max_length io))) = length content)
   \<and> (read io (INT2FIX max_length) = (Returned (RString str enc), io') \<longrightarrow>
        cb_blob__get__chunk read content max_length io
          = (sint (word_of_nat (min (length str) max_length) :: 32 word),
             take (min (length str) max_length) str @ drop (min (length str) max_length) content,
             io')
        \<and> (max_length < 2 ^ 31 \<longrightarrow>
             fst (cb_blob__get__chunk read content max_length io)
               = int (min (length str) max_length)))
   \<and> (read io (INT2FIX max_length) = (Returned v, io')
        \<and> (NIL_P v \<or> TYPE_of v \<noteq> T_STRING) \<longrightarrow>
        cb_blob__get__chunk read content max_length io = (0, content, io'))"
proof -
  obtain k src where k: "k \<le> max_length" "k \<le> length src"
    and c: "fst (snd (cb_blob__get__chunk read content max_length io)) = take k src @ drop k content"
    using cb_content_cases [of max_length read content io] by blast
  from k have untouched: "drop max_length (fst (snd (cb_blob__get__chunk read content max_length io)))
     = drop max_length content"
    unfolding c by simp
  from k have len: "max_length \<le> length content \<longrightarrow>
        length (fst (snd (cb_blob__get__chunk read content max_length io))) = length content"
    unfolding c by simp
  have str: "read io (INT2FIX max_length) = (Returned (RString str enc), io') \<longrightarrow>
        cb_blob__get__chunk read content max_length io
          = (sint (word_of_nat (min (length str) max_length) :: 32 word),
             take (min (length str) max_length) str @ drop (min (length str) max_length) content,
             io')
        \<and> (max_length < 2 ^ 31 \<longrightarrow>
             fst (cb_blob__get__chunk read content max_length io)
               = int (min (length str) max_length))"
  proof (intro impI conjI)
    assume r: "read io (INT2FIX max_length) = (Returned (RString str enc), io')"
    then show "cb_blob__get__chunk read content max_length io
          = (sint (word_of_nat (min (length str) max_length) :: 32 word),
             take (min (length str) max_length) str @ drop (min (length str) max_length) content,
             io')"
      by (rule cb_string)
    assume "max_length < 2 ^ 31"
    then have "min (length str) max_length < 2 ^ 31" by simp
    then show "fst (cb_blob__get__chunk read content max_length io)
               = int (min (length str) max_length)"
      by (simp add: cb_string [of read, OF r] sint_of_nat_small)
  qed
  have other: "read io (INT2FIX max_length) = (Returned v, io')
        \<and> (NIL_P v \<or> TYPE_of v \<noteq> T_STRING) \<longrightarrow>
        cb_blob__get__chunk read content max_length io = (0, content, io')"
    using cb_not_string [of read io max_length v io' content] by blast
  show ?thesis
    by (rule conjI [OF untouched conjI [OF len conjI [OF str other]]])
qed

text \<open>
  A buffer of four bytes and \<open>max_length = 2\<close>: of the string \<^verbatim>\<open>"abc"\<close> two bytes are
  copied; \<^verbatim>\<open>nil\<close> and the Fixnum 7 end the stream.
\<close>

theorem chunk_callback_bounded_witness:
  "cb_blob__get__chunk script_read [1, 2, 3, 4] 2 [Returned (RString [97, 98, 99] ASCII_8BIT)]
     = (2, [97, 98, 3, 4], [])
   \<and> cb_blob__get__chunk script_read [1, 2, 3, 4] 2 [Returned Qnil] = (0, [1, 2, 3, 4], [])
   \<and> cb_blob__get__chunk script_read [1, 2, 3, 4] 2 [Returned (Fixnum 7)] = (0, [1, 2, 3, 4], [])"
  using chunk_callback_bounded [of 2 script_read "[1, 2, 3, 4]"
      "[Returned (RString [97, 98, 99] ASCII_8BIT)]" "[97, 98, 99]" ASCII_8BIT "[]" Qnil]
    chunk_callback_bounded [of 2 script_read "[1, 2, 3, 4]"
      "[Returned Qnil]" "[]" ASCII_8BIT "[]" Qnil]
    chunk_callback_bounded [of 2 script_read "[1, 2, 3, 4]"
      "[Returned (Fixnum 7)]" "[]" ASCII_8BIT "[]" "Fixnum 7"]
  by (simp add: NIL_P_def)

section \<open>Binary classification\<close>

lemma binary_scan_counts:
  "binary_scan cs p np =
     (if 0 \<in> set cs then None
      else Some (p + length (filter isprint cs), np + length (filter (\<lambda>c. \<not> isprint c) cs)))"
  by (induction cs arbitrary: p np) auto

lemma git_blob_is_binary_iff:
  "git_blob_is_binary num den buf \<longleftrightarrow>
     0 \<in> set (take 4000 buf)
     \<or> num * length (filter isprint (take 4000 buf))
         < den * length (filter (\<lambda>c. \<not> isprint c) (take 4000 buf))"
  by (simp add: git_blob_is_binary_def binary_scan_counts)

text \<open>
  C8. The classifier is a function of the buffer alone, with a boolean result on every
  buffer: binary exactly when a NUL byte is among the first 4000 bytes or the ratio of
  non-printable to printable bytes there exceeds the threshold; nothing beyond the first
  4000 bytes matters. Whatever the threshold, the empty buffer and \<^verbatim>\<open>"hello world"\<close> are
  not binary, and \<^verbatim>\<open>"a\0b"\<close> is.
\<close>

theorem binary_classifier:
  "rb_git_blob_is_binary (git_blob_is_binary num den) buf =
     (if 0 \<in> set (take 4000 buf)
         \<or> num * length (filter isprint (take 4000 buf))
             < den * length (filter (\<lambda>c. \<not> isprint c) (take 4000 buf))
      then Qtrue else Qfalse)
   \<and> git_blob_is_binary num den buf = git_blob_is_binary num den (take 4000 buf)
   \<and> rb_git_blob_is_binary (git_blob_is_binary num den) [] = Qfalse
   \<and> rb_git_blob_is_binary (git_blob_is_binary num den)
        [104, 101, 108, 108, 111, 32, 119, 111, 114, 108, 100] = Qfalse
   \<and> rb_git_blob_is_binary (git_blob_is_binary num den) [97, 0, 98] = Qtrue"
proof -
  have iff: "rb_git_blob_is_binary (git_blob_is_binary num den) buf =
     (if 0 \<in> set (take 4000 buf)
         \<or> num * length (filter isprint (take 4000 buf))
             < den * length (filter (\<lambda>c. \<not> isprint c) (take 4000 buf))
      then Qtrue else Qfalse)"
    by (simp only: rb_git_blob_is_binary_def git_blob_is_binary_iff)
  have prefix: "git_blob_is_binary num den buf = git_blob_is_binary num den (take 4000 buf)"
    by (simp add: git_blob_is_binary_def)
  have empty: "rb_git_blob_is_binary (git_blob_is_binary num den) [] = Qfalse"
    by (simp add: rb_git_blob_is_binary_def git_blob_is_binary_def)
  have hello: "rb_git_blob_is_binary (git_blob_is_binary num den)
        [104, 101, 108, 108, 111, 32, 119, 111, 114, 108, 100] = Qfalse"
    by (simp add: rb_git_blob_is_binary_def git_blob_is_binary_def isprint_def)
  have nul: "rb_git_blob_is_binary (git_blob_is_binary num den) [97, 0, 98] = Qtrue"
    by (simp add: rb_git_blob_is_binary_def git_blob_is_binary_def isprint_def)
  show ?thesis
    by (rule conjI [OF iff conjI [OF prefix conjI [OF empty conjI [OF hello nul]]]])
qed

text \<open>
  With the threshold \<open>1 / 128\<close>: a NUL byte, and one control byte among three bytes, make
  a buffer binary; two letters do not.
\<close>

theorem binary_classifier_witness:
  "rb_git_blob_is_binary (git_blob_is_binary 1 128) [97, 0, 98] = Qtrue
   \<and> rb_git_blob_is_binary (git_blob_is_binary 1 128) [97, 98, 7] = Qtrue
   \<and> rb_git_blob_is_binary (git_blob_is_binary 1 128) [97, 98] = Qfalse"
  using binary_classifier [of 1 128 "[97, 0, 98]"] binary_classifier [of 1 128 "[97, 98, 7]"]
    binary_classifier [of 1 128 "[97, 98]"]
  by (simp add: isprint_def)

end
